theory Spec2Isabelle
  imports Complex_Main "HOL-Library.AList"
begin

section \<open>Values, records and exceptions\<close>

text \<open>
  The API response of \<^verbatim>\<open>find_cases\<close> is a JSON array of objects. The fields read by
  the pipeline hold null, integers (epoch milliseconds, severity levels) or strings.
  A Python float is modelled by the rational it denotes.
\<close>

datatype jval = JNull | JNum int | JStr string

text \<open>The exceptions the pipeline can raise: the lookup \<^verbatim>\<open>record[k]\<close> of a missing
  key, the division of a value that is not a number, and the range errors of
  \<^verbatim>\<open>time.gmtime\<close> and \<^verbatim>\<open>time.strftime\<close>.\<close>

datatype error = KeyError string | TypeError | OverflowError

text \<open>A dictionary with string keys, in insertion order.\<close>

type_synonym pydict = "(string \<times> jval) list"

text \<open>A window dictionary: the key is the index that \<^verbatim>\<open>enumerate\<close> gave the record.\<close>

type_synonym days_dict = "(nat \<times> pydict) list"

text \<open>\<^verbatim>\<open>record[k]\<close>\<close>

definition getitem :: "pydict \<Rightarrow> string \<Rightarrow> error + jval" where
  "getitem r k = (case map_of r k of None \<Rightarrow> Inl (KeyError k) | Some v \<Rightarrow> Inr v)"

text \<open>\<^verbatim>\<open>v / d\<close> for a nonzero numeric literal \<open>d\<close>\<close>

fun truediv :: "jval \<Rightarrow> rat \<Rightarrow> error + rat" where
  "truediv (JNum n) d = Inr (of_int n / d)"
| "truediv JNull d = Inl TypeError"
| "truediv (JStr s) d = Inl TypeError"

text \<open>
  What the run takes from its environment: the two cutoffs
  \<^verbatim>\<open>time.mktime((today - timedelta(days=30)).timetuple())\<close> and the same for 60 days
  (they depend on the clock and the local time zone), and the library call
  \<^verbatim>\<open>time.strftime(TIME_FMT, time.gmtime(x))\<close>, which raises outside the platform's range.
\<close>

record env =
  cutoff30 :: rat
  cutoff60 :: rat
  strftime_gmtime :: "rat \<Rightarrow> error + string"

section \<open>The pipeline state\<close>

record pipeline =
  all30_dict :: days_dict
  all60_dict :: days_dict
  all90_dict :: days_dict

text \<open>The three dictionaries as \<^verbatim>\<open>__init__\<close> leaves them.\<close>

definition init :: pipeline where
  "init = \<lparr>all30_dict = [], all60_dict = [], all90_dict = []\<rparr>"

section \<open>\<^verbatim>\<open>_add_record\<close>\<close>

text \<open>
  The dictionary literal is evaluated field by field, then stored under \<open>key\<close>; only
  then is \<^verbatim>\<open>endDate\<close> looked at. An exception raised while the argument of
  \<^verbatim>\<open>update\<close> is evaluated leaves the four-field entry in the dictionary: the result
  \<open>Inl (e, d)\<close> is the exception together with the dictionary as it stands.
\<close>

definition add_record :: "env \<Rightarrow> days_dict \<Rightarrow> pydict \<Rightarrow> nat \<Rightarrow> (error \<times> days_dict) + days_dict" where
  "add_record ev days_dict r key =
    (case getitem r ''title'' of Inl e \<Rightarrow> Inl (e, days_dict) | Inr title \<Rightarrow>
    (case getitem r ''owner'' of Inl e \<Rightarrow> Inl (e, days_dict) | Inr owner \<Rightarrow>
    (case getitem r ''severity'' of Inl e \<Rightarrow> Inl (e, days_dict) | Inr severity \<Rightarrow>
    (case getitem r ''createdAt'' of Inl e \<Rightarrow> Inl (e, days_dict) | Inr createdAt \<Rightarrow>
    (case truediv createdAt 1000 of Inl e \<Rightarrow> Inl (e, days_dict) | Inr t \<Rightarrow>
    (case strftime_gmtime ev t of Inl e \<Rightarrow> Inl (e, days_dict) | Inr created_at \<Rightarrow>
     (let entry = [(''Name'', title), (''Owner'', owner), (''Severity'', severity),
                   (''Created'', JStr created_at)];
          d1 = AList.update key entry days_dict
      in if ''endDate'' \<in> fst ` set r then
          (case getitem r ''endDate'' of Inl e \<Rightarrow> Inl (e, d1) | Inr endDate \<Rightarrow>
          (case truediv endDate 1000 of Inl e \<Rightarrow> Inl (e, d1) | Inr t2 \<Rightarrow>
          (case strftime_gmtime ev t2 of Inl e \<Rightarrow> Inl (e, d1) | Inr closed_at \<Rightarrow>
          (case getitem r ''resolutionStatus'' of Inl e \<Rightarrow> Inl (e, d1) | Inr resolution \<Rightarrow>
             Inr (AList.update key
                    (AList.update ''Resolution'' resolution
                       (AList.update ''Closed'' (JStr closed_at) entry)) d1)))))
         else Inr d1)))))))"

section \<open>\<^verbatim>\<open>_fill_day_dicts\<close>\<close>

text \<open>One iteration of the loop, for the record \<open>r\<close> at index \<open>i\<close>.\<close>

definition fill_step :: "env \<Rightarrow> nat \<Rightarrow> pydict \<Rightarrow> pipeline \<Rightarrow> (error \<times> pipeline) + pipeline" where
  "fill_step ev i r s =
    (case getitem r ''createdAt'' of Inl e \<Rightarrow> Inl (e, s) | Inr createdAt \<Rightarrow>
    (case truediv createdAt 1000 of Inl e \<Rightarrow> Inl (e, s) | Inr t \<Rightarrow>
     (if t > cutoff30 ev then
        (case add_record ev (all30_dict s) r i of
           Inl x \<Rightarrow> Inl (fst x, s\<lparr>all30_dict := snd x\<rparr>)
         | Inr d \<Rightarrow> Inr (s\<lparr>all30_dict := d\<rparr>))
      else if t > cutoff60 ev then
        (case add_record ev (all60_dict s) r i of
           Inl x \<Rightarrow> Inl (fst x, s\<lparr>all60_dict := snd x\<rparr>)
         | Inr d \<Rightarrow> Inr (s\<lparr>all60_dict := d\<rparr>))
      else
        (case add_record ev (all90_dict s) r i of
           Inl x \<Rightarrow> Inl (fst x, s\<lparr>all90_dict := snd x\<rparr>)
         | Inr d \<Rightarrow> Inr (s\<lparr>all90_dict := d\<rparr>)))))"

text \<open>The loop over \<^verbatim>\<open>enumerate(self._dataset)\<close>; an exception ends it.\<close>

fun fill_loop :: "env \<Rightarrow> nat \<Rightarrow> pydict list \<Rightarrow> pipeline \<Rightarrow> (error \<times> pipeline) + pipeline" where
  "fill_loop ev i [] s = Inr s"
| "fill_loop ev i (r # rs) s =
    (case fill_step ev i r s of Inl x \<Rightarrow> Inl x | Inr s' \<Rightarrow> fill_loop ev (Suc i) rs s')"

definition fill_day_dicts :: "env \<Rightarrow> pydict list \<Rightarrow> pipeline \<Rightarrow> (error \<times> pipeline) + pipeline" where
  "fill_day_dicts ev dataset s = fill_loop ev 0 dataset s"

text \<open>The state of the object after the call, whether it returned or raised.\<close>

fun state_after :: "(error \<times> pipeline) + pipeline \<Rightarrow> pipeline" where
  "state_after (Inl (e, s)) = s"
| "state_after (Inr s) = s"

section \<open>\<^verbatim>\<open>make_dataframes\<close>\<close>

definition data_frame_INDEX :: "string list" where
  "data_frame_INDEX = [''Created'', ''Severity'', ''Owner'', ''Name'', ''Closed'', ''Resolution'']"

text \<open>The labels are Python objects: eleven strings and the integers 1, 2, 3.\<close>

definition counts_frame_INDEX :: "jval list" where
  "counts_frame_INDEX =
    [JStr ''totals'',
     JStr ''Team.Member'',
     JStr ''Team.Member1'',
     JStr ''Team.Member2'',
     JStr ''Team.Member3'',
     JStr ''Team.Member4'',
     JStr ''Team.Member5'',
     JStr ''Team.Member6'',
     JStr ''Duplicated'',
     JStr ''TruePositive'',
     JStr ''FalsePositive'',
     JNum 1,
     JNum 2,
     JNum 3]"

text \<open>
  A pandas frame: the column labels and, for each row label, the cells of the row in
  the order of the columns.
\<close>

record ('i, 'c) frame =
  columns :: "string list"
  rows :: "('i \<times> 'c list) list"

text \<open>
  A cell of a window frame is \<open>None\<close> where the record has no such key (pandas
  stores NaN) and \<open>Some v\<close> otherwise. NaN and Python's None are both missing values.
\<close>

type_synonym data_frame = "(nat, jval option) frame"

definition isna :: "jval option \<Rightarrow> bool" where
  "isna c = (c = None \<or> c = Some JNull)"

text \<open>
  \<^verbatim>\<open>pd.DataFrame(d, index=idx).transpose()\<close> for a dictionary of dictionaries: one row
  for each key of \<open>d\<close>, in the order of the dictionary, and one column for each label
  of \<open>idx\<close>, holding the record's value under that label.
\<close>

definition DataFrame_transpose :: "days_dict \<Rightarrow> string list \<Rightarrow> data_frame" where
  "DataFrame_transpose d idx =
    \<lparr>columns = idx, rows = map (\<lambda>(k, c). (k, map (map_of c) idx)) d\<rparr>"

text \<open>\<^verbatim>\<open>df[c]\<close>, for a label \<open>c\<close> among the columns.\<close>

definition getcol :: "data_frame \<Rightarrow> string \<Rightarrow> jval option list" where
  "getcol df c =
    map (\<lambda>(k, cells). case map_of (zip (columns df) cells) c of None \<Rightarrow> None | Some v \<Rightarrow> v)
      (rows df)"

text \<open>\<^verbatim>\<open>df.count()[c]\<close>: the cells of the column that are not missing.\<close>

definition df_count :: "data_frame \<Rightarrow> string \<Rightarrow> nat" where
  "df_count df c = length (filter (\<lambda>v. \<not> isna v) (getcol df c))"

text \<open>
  \<^verbatim>\<open>series.value_counts().to_dict()\<close>: missing values are dropped, every other value
  that occurs is a key, with the number of its occurrences.
\<close>

definition value_counts :: "jval option list \<Rightarrow> (jval \<rightharpoonup> nat)" where
  "value_counts col =
    (let vs = map the (filter (\<lambda>v. \<not> isna v) col)
     in (\<lambda>v. if v \<in> set vs then Some (count_list vs v) else None))"

text \<open>
  \<^verbatim>\<open>pd.DataFrame(cols, index=idx)\<close> for a dictionary of dictionaries: the columns in
  the order of \<open>cols\<close>, the rows are the labels of \<open>idx\<close>, and a cell is the column's
  value under the row label, missing where the column has no such key.
\<close>

definition DataFrame_index :: "(string \<times> (jval \<rightharpoonup> nat)) list \<Rightarrow> jval list \<Rightarrow> (jval, nat option) frame" where
  "DataFrame_index cols idx =
    \<lparr>columns = map fst cols, rows = map (\<lambda>l. (l, map (\<lambda>(c, d). d l) cols)) idx\<rparr>"

text \<open>\<^verbatim>\<open>fillna(v)\<close>\<close>

definition fillna :: "nat \<Rightarrow> (jval, nat option) frame \<Rightarrow> (jval, nat) frame" where
  "fillna v f =
    \<lparr>columns = columns f,
     rows = map (\<lambda>(l, cells). (l, map (\<lambda>c. case c of None \<Rightarrow> v | Some n \<Rightarrow> n) cells)) (rows f)\<rparr>"

record dataframes =
  data_frame_30days :: data_frame
  data_frame_60days :: data_frame
  data_frame_90days :: data_frame
  data_frame_counts :: "(jval, nat) frame"

definition make_dataframes :: "pipeline \<Rightarrow> dataframes" where
  "make_dataframes s =
    (let df30 = DataFrame_transpose (all30_dict s) data_frame_INDEX;
         df60 = DataFrame_transpose (all60_dict s) data_frame_INDEX;
         df90 = DataFrame_transpose (all90_dict s) data_frame_INDEX
     in \<lparr>data_frame_30days = df30,
         data_frame_60days = df60,
         data_frame_90days = df90,
         data_frame_counts =
           fillna 0
             (DataFrame_index
               [(''Created'', [JStr ''totals'' \<mapsto> df_count df30 ''Created'']),
                (''Closed'', [JStr ''totals'' \<mapsto> df_count df30 ''Closed'']),
                (''Owner'', value_counts (getcol df30 ''Owner'')),
                (''Resolution'', value_counts (getcol df30 ''Resolution'')),
                (''Severity'', value_counts (getcol df30 ''Severity''))]
               counts_frame_INDEX)\<rparr>)"

text \<open>\<^verbatim>\<open>f.loc[l, c]\<close>: the cell of row \<open>l\<close> and column \<open>c\<close>, \<open>None\<close> when the frame has
  no such row or column.\<close>

definition loc :: "('i, 'c) frame \<Rightarrow> 'i \<Rightarrow> string \<Rightarrow> 'c option" where
  "loc f l c =
    (case map_of (rows f) l of None \<Rightarrow> None
     | Some cells \<Rightarrow> map_of (zip (columns f) cells) c)"

section \<open>The window sheets of \<^verbatim>\<open>make_charts\<close>\<close>

text \<open>
  \<^verbatim>\<open>_data_frame_days_to_excel\<close> writes the frame without its header from the second
  row on, the row label in the first column; \<^verbatim>\<open>to_excel\<close> replaces a missing value by
  its default \<^verbatim>\<open>na_rep=''\<close>, which leaves the cell empty. \<^verbatim>\<open>_set_workbook_layout\<close> then
  writes \<^verbatim>\<open>data_frame.columns.values\<close> into the first row.
\<close>

datatype xcell = XEmpty | XNum int | XStr string

record sheet =
  header :: "string list"
  body :: "(nat \<times> xcell list) list"

fun excel_cell :: "jval option \<Rightarrow> xcell" where
  "excel_cell None = XEmpty"
| "excel_cell (Some JNull) = XEmpty"
| "excel_cell (Some (JNum n)) = XNum n"
| "excel_cell (Some (JStr s)) = XStr s"

definition data_frame_days_to_excel :: "data_frame \<Rightarrow> sheet" where
  "data_frame_days_to_excel df =
    \<lparr>header = columns df, body = map (\<lambda>(k, cells). (k, map excel_cell cells)) (rows df)\<rparr>"

text \<open>
  The three window sheets that \<^verbatim>\<open>make_charts\<close> writes, by sheet name and in the
  order of the calls. The chart sheet and the sheet of the counts frame are not part of
  the model.
\<close>

definition make_charts :: "dataframes \<Rightarrow> (string \<times> sheet) list" where
  "make_charts dfs =
    [(''Cases newer than 30 Days'', data_frame_days_to_excel (data_frame_30days dfs)),
     (''Cases older than 60 days'', data_frame_days_to_excel (data_frame_60days dfs)),
     (''Cases newer than 90 Days'', data_frame_days_to_excel (data_frame_90days dfs))]"

section \<open>Predicates of the analysis\<close>

text \<open>The keys of a window dictionary, in its order.\<close>

definition keys :: "days_dict \<Rightarrow> nat list" where
  "keys d = map fst d"

text \<open>The field holds a number whose timestamp the platform can format.\<close>

definition formattable :: "env \<Rightarrow> pydict \<Rightarrow> string \<Rightarrow> bool" where
  "formattable ev r f =
    (case map_of r f of
       Some (JNum n) \<Rightarrow> \<not> isl (strftime_gmtime ev (of_int n / 1000))
     | _ \<Rightarrow> False)"

text \<open>A raw record that \<^verbatim>\<open>_add_record\<close> accepts: the three plain fields and a
  formattable \<^verbatim>\<open>createdAt\<close>; with \<^verbatim>\<open>endDate\<close>, a formattable one and \<^verbatim>\<open>resolutionStatus\<close>.\<close>

definition valid_record :: "env \<Rightarrow> pydict \<Rightarrow> bool" where
  "valid_record ev r \<longleftrightarrow>
     ''title'' \<in> fst ` set r \<and> ''owner'' \<in> fst ` set r \<and> ''severity'' \<in> fst ` set r \<and>
     formattable ev r ''createdAt'' \<and>
     (''endDate'' \<in> fst ` set r \<longrightarrow>
        formattable ev r ''endDate'' \<and> ''resolutionStatus'' \<in> fst ` set r)"

text \<open>The shape of an entry stored by \<^verbatim>\<open>_add_record\<close>: \<^verbatim>\<open>Created\<close> is a string,
  \<^verbatim>\<open>Closed\<close> is a string when present, and \<^verbatim>\<open>Closed\<close> and \<^verbatim>\<open>Resolution\<close> go together.\<close>

definition normalized :: "pydict \<Rightarrow> bool" where
  "normalized c \<longleftrightarrow>
     (\<exists>s. map_of c ''Created'' = Some (JStr s)) \<and>
     (map_of c ''Closed'' = None \<or> (\<exists>s. map_of c ''Closed'' = Some (JStr s))) \<and>
     (map_of c ''Closed'' = None \<longleftrightarrow> map_of c ''Resolution'' = None)"

text \<open>The keys of the three dictionaries.\<close>

definition all_keys :: "pipeline \<Rightarrow> nat set" where
  "all_keys s = set (keys (all30_dict s)) \<union> set (keys (all60_dict s)) \<union> set (keys (all90_dict s))"

text \<open>The entries of the three dictionaries.\<close>

definition entries :: "pipeline \<Rightarrow> (nat \<times> pydict) set" where
  "entries s = set (all30_dict s) \<union> set (all60_dict s) \<union> set (all90_dict s)"

text \<open>The loop invariant of \<^verbatim>\<open>_fill_day_dicts\<close> before the record of index \<open>i\<close>.\<close>

definition part_inv :: "nat \<Rightarrow> pipeline \<Rightarrow> bool" where
  "part_inv i s \<longleftrightarrow>
     sorted_wrt (<) (keys (all30_dict s)) \<and> sorted_wrt (<) (keys (all60_dict s)) \<and>
     sorted_wrt (<) (keys (all90_dict s)) \<and>
     distinct (keys (all30_dict s) @ keys (all60_dict s) @ keys (all90_dict s)) \<and>
     all_keys s = {..<i}"

text \<open>The dictionary after \<^verbatim>\<open>_add_record\<close>, whether it returned or raised.\<close>

definition after_add :: "(error \<times> days_dict) + days_dict \<Rightarrow> days_dict" where
  "after_add x = (case x of Inl y \<Rightarrow> snd y | Inr d \<Rightarrow> d)"

text \<open>
  An entry \<open>c\<close> that \<^verbatim>\<open>_add_record\<close> stored for the raw record \<open>r\<close>; when the call
  returned, \<^verbatim>\<open>Closed\<close> is there exactly when the record has \<^verbatim>\<open>endDate\<close>.
\<close>

definition made_from :: "bool \<Rightarrow> pydict \<Rightarrow> pydict \<Rightarrow> bool" where
  "made_from returned r c \<longleftrightarrow>
     normalized c \<and> ''createdAt'' \<in> fst ` set r \<and>
     (returned \<longrightarrow> (map_of c ''Closed'' = None \<longleftrightarrow> ''endDate'' \<notin> fst ` set r))"

text \<open>The records of a window dictionary whose field \<open>f\<close> is the value \<open>l\<close>.\<close>

definition field_count :: "days_dict \<Rightarrow> string \<Rightarrow> jval \<Rightarrow> nat" where
  "field_count d f l = length (filter (\<lambda>(k, c). map_of c f = Some l) d)"

section \<open>A concrete environment\<close>

text \<open>
  An instance of the environment, for evaluating the pipeline: the formatting of
  \<^verbatim>\<open>"%m/%d/%Y %H:%M:%S"\<close> in UTC for the years 1 to 9999 (days are turned into a civil
  date of the proleptic Gregorian calendar), on a machine whose local time is UTC, run
  on 1 March 2021.
\<close>

definition two_digits :: "int \<Rightarrow> string" where
  "two_digits n = [''0123456789'' ! nat (n div 10 mod 10), ''0123456789'' ! nat (n mod 10)]"

definition four_digits :: "int \<Rightarrow> string" where
  "four_digits n = two_digits (n div 100) @ two_digits n"

definition civil_from_days :: "int \<Rightarrow> int \<times> int \<times> int" where
  "civil_from_days z0 =
    (let z = z0 + 719468;
         era = z div 146097;
         doe = z mod 146097;
         yoe = (doe - doe div 1460 + doe div 36524 - doe div 146096) div 365;
         doy = doe - (365 * yoe + yoe div 4 - yoe div 100);
         mp = (5 * doy + 2) div 153;
         d = doy - (153 * mp + 2) div 5 + 1;
         m = (if mp < 10 then mp + 3 else mp - 9);
         y = yoe + era * 400 + (if m \<le> 2 then 1 else 0)
     in (y, m, d))"

definition utc_strftime :: "rat \<Rightarrow> error + string" where
  "utc_strftime x =
    (let secs = \<lfloor>x\<rfloor>;
         (y, m, d) = civil_from_days (secs div 86400);
         sod = secs mod 86400
     in if y < 1 \<or> 9999 < y then Inl OverflowError
        else Inr (two_digits m @ ''/'' @ two_digits d @ ''/'' @ four_digits y @ '' '' @
                  two_digits (sod div 3600) @ '':'' @ two_digits (sod div 60 mod 60) @ '':'' @
                  two_digits (sod mod 60)))"

definition env_utc :: env where
  "env_utc = \<lparr>cutoff30 = 1611964800, cutoff60 = 1609372800, strftime_gmtime = utc_strftime\<rparr>"

text \<open>Three cases, created 5, 45 and 95 days before the run; the second one is closed.\<close>

definition case_recent :: pydict where
  "case_recent = [(''title'', JStr ''Phishing mail''), (''owner'', JStr ''A''),
                  (''severity'', JNum 2), (''createdAt'', JNum 1614124800000)]"

definition case_closed :: pydict where
  "case_closed = [(''title'', JStr ''Port scan''), (''owner'', JStr ''B''),
                  (''severity'', JNum 1), (''createdAt'', JNum 1610668800000),
                  (''endDate'', JNum 1611000000000), (''resolutionStatus'', JStr ''TruePositive'')]"

definition case_old :: pydict where
  "case_old = [(''title'', JStr ''Lost badge''), (''owner'', JStr ''A''),
               (''severity'', JNum 3), (''createdAt'', JNum 1606348800000)]"

text \<open>A closed case without \<^verbatim>\<open>resolutionStatus\<close>, and a case without \<^verbatim>\<open>createdAt\<close>.\<close>

definition case_unpaired :: pydict where
  "case_unpaired = [(''title'', JStr ''Malware''), (''owner'', JStr ''B''),
                    (''severity'', JNum 2), (''createdAt'', JNum 1614124800000),
                    (''endDate'', JNum 1614200000000)]"

definition case_undated :: pydict where
  "case_undated = [(''title'', JStr ''Spam''), (''owner'', JStr ''A''), (''severity'', JNum 1)]"

text \<open>Two cases created one second before and one second after the 30-day cutoff.\<close>

definition case_before :: pydict where
  "case_before = [(''title'', JStr ''Early''), (''owner'', JStr ''A''),
                  (''severity'', JNum 1), (''createdAt'', JNum 1611964799000)]"

definition case_after :: pydict where
  "case_after = [(''title'', JStr ''Late''), (''owner'', JStr ''A''),
                 (''severity'', JNum 1), (''createdAt'', JNum 1611964801000)]"

text \<open>A case created 5 days before the run and closed the same day.\<close>

definition case_resolved :: pydict where
  "case_resolved = [(''title'', JStr ''Malware''), (''owner'', JStr ''Team.Member1''),
                    (''severity'', JNum 2), (''createdAt'', JNum 1614124800000),
                    (''endDate'', JNum 1614200000000), (''resolutionStatus'', JStr ''FalsePositive'')]"

text \<open>The state after the run on the three cases, and after a run with two recent cases.\<close>

definition run_three :: pipeline where
  "run_three = state_after (fill_day_dicts env_utc [case_recent, case_closed, case_old] init)"

definition run_recent :: pipeline where
  "run_recent = state_after (fill_day_dicts env_utc [case_recent, case_resolved, case_closed] init)"

section \<open>Properties of \<^verbatim>\<open>_add_record\<close> and \<^verbatim>\<open>_fill_day_dicts\<close>\<close>

lemma getitem_Inr: "k \<in> fst ` set r \<Longrightarrow> \<exists>v. getitem r k = Inr v"
  by (cases "map_of r k") (auto simp: getitem_def map_of_eq_None_iff)

lemma getitem_Inl: "k \<notin> fst ` set r \<Longrightarrow> getitem r k = Inl (KeyError k)"
  by (simp add: getitem_def map_of_eq_None_iff[THEN iffD2])

lemma formattableD:
  assumes "formattable ev r f"
  obtains n s where "getitem r f = Inr (JNum n)" "truediv (JNum n) 1000 = Inr (of_int n / 1000)"
    "strftime_gmtime ev (of_int n / 1000) = Inr s"
proof -
  from assms obtain n where n: "map_of r f = Some (JNum n)"
    and ok: "\<not> isl (strftime_gmtime ev (of_int n / 1000))"
    by (auto simp: formattable_def split: option.splits jval.splits)
  from ok obtain s where "strftime_gmtime ev (of_int n / 1000) = Inr s"
    by (cases "strftime_gmtime ev (of_int n / 1000)") auto
  with n show thesis by (intro that[of n s]) (simp_all add: getitem_def)
qed

lemma add_record_Inr_update:
  assumes "add_record ev d r k = Inr d'"
  shows "\<exists>x. d' = AList.update k x d"
  using assms
  by (auto simp: add_record_def Let_def split: sum.splits if_splits)

lemma add_record_Inl_update:
  assumes "add_record ev d r k = Inl (e, d')"
  shows "d' = d \<or> (\<exists>x. d' = AList.update k x d)"
  using assms
  by (auto simp: add_record_def Let_def split: sum.splits if_splits)

lemma keys_update:
  "keys (AList.update k x d) = (if k \<in> set (keys d) then keys d else keys d @ [k])"
  by (simp add: keys_def update_keys)

lemma add_record_keys_Inr:
  assumes "add_record ev d r k = Inr d'"
  shows "keys d' = (if k \<in> set (keys d) then keys d else keys d @ [k])"
  using add_record_Inr_update[OF assms] keys_update by metis

lemma add_record_keys_Inl:
  assumes "add_record ev d r k = Inl (e, d')"
  shows "keys d' = keys d \<or> keys d' = (if k \<in> set (keys d) then keys d else keys d @ [k])"
  using add_record_Inl_update[OF assms] keys_update by metis

lemma add_record_valid:
  assumes "valid_record ev r"
  shows "\<exists>d'. add_record ev d r k = Inr d'"
proof -
  from assms obtain t o' sv where f: "getitem r ''title'' = Inr t" "getitem r ''owner'' = Inr o'"
    "getitem r ''severity'' = Inr sv"
    unfolding valid_record_def by (meson getitem_Inr)
  from assms have c: "formattable ev r ''createdAt''" by (simp add: valid_record_def)
  show ?thesis
  proof (cases "''endDate'' \<in> fst ` set r")
    case False
    with f c show ?thesis
      by (auto elim!: formattableD simp: add_record_def Let_def)
  next
    case True
    with assms have e: "formattable ev r ''endDate''" and "''resolutionStatus'' \<in> fst ` set r"
      by (simp_all add: valid_record_def)
    then obtain rs where "getitem r ''resolutionStatus'' = Inr rs" by (meson getitem_Inr)
    with f c e True show ?thesis
      by (auto elim!: formattableD simp: add_record_def Let_def)
  qed
qed

lemma add_record_Inr_entry:
  assumes "add_record ev d r k = Inr d'"
  shows "\<exists>x. d' = AList.update k x d \<and> normalized x \<and>
           (map_of x ''Closed'' = None \<longleftrightarrow> ''endDate'' \<notin> fst ` set r)"
  using assms
  by (auto simp: add_record_def Let_def normalized_def split: sum.splits if_splits)

lemma add_record_Inl_entry:
  assumes "add_record ev d r k = Inl (e, d')"
  shows "d' = d \<or> (\<exists>x. d' = AList.update k x d \<and> normalized x)"
  using assms
  by (auto simp: add_record_def Let_def normalized_def split: sum.splits if_splits)

lemma set_update_cases:
  "(a, b) \<in> set (AList.update k x d) \<Longrightarrow> (a = k \<and> b = x) \<or> (a, b) \<in> set d"
  by (induction d) (auto split: if_splits)

lemma part_inv_init: "part_inv 0 init"
  by (simp add: part_inv_def init_def keys_def all_keys_def)

lemma add_record_fresh:
  assumes "add_record ev d r i = Inr d'" and "set (keys d) \<subseteq> {..<i}"
  shows "keys d' = keys d @ [i]"
  using add_record_keys_Inr[OF assms(1)] assms(2) by auto

lemma sorted_snoc:
  "sorted_wrt (<) ks \<Longrightarrow> set ks \<subseteq> {..<i} \<Longrightarrow> sorted_wrt (<) (ks @ [i::nat])"
  by (auto simp: sorted_wrt_append)

lemma fill_step_cases:
  assumes "fill_step ev i r s = Inr s'"
  obtains d where "add_record ev (all30_dict s) r i = Inr d" "s' = s\<lparr>all30_dict := d\<rparr>"
  | d where "add_record ev (all60_dict s) r i = Inr d" "s' = s\<lparr>all60_dict := d\<rparr>"
  | d where "add_record ev (all90_dict s) r i = Inr d" "s' = s\<lparr>all90_dict := d\<rparr>"
  using assms by (auto simp: fill_step_def split: sum.splits if_splits)

lemma fill_step_part_inv:
  assumes "fill_step ev i r s = Inr s'" and "part_inv i s"
  shows "part_inv (Suc i) s'"
proof -
  from assms(2) have sub: "set (keys (all30_dict s)) \<subseteq> {..<i}" "set (keys (all60_dict s)) \<subseteq> {..<i}"
    "set (keys (all90_dict s)) \<subseteq> {..<i}"
    by (auto simp: part_inv_def all_keys_def)
  from assms(1) show ?thesis
  proof (cases rule: fill_step_cases)
    case (1 d)
    from add_record_fresh[OF 1(1) sub(1)] assms(2) sub show ?thesis
      unfolding 1(2) part_inv_def all_keys_def
      by (auto simp: sorted_wrt_append lessThan_Suc)
  next
    case (2 d)
    from add_record_fresh[OF 2(1) sub(2)] assms(2) sub show ?thesis
      unfolding 2(2) part_inv_def all_keys_def
      by (auto simp: sorted_wrt_append lessThan_Suc)
  next
    case (3 d)
    from add_record_fresh[OF 3(1) sub(3)] assms(2) sub show ?thesis
      unfolding 3(2) part_inv_def all_keys_def
      by (auto simp: sorted_wrt_append lessThan_Suc)
  qed
qed

lemma fill_loop_part_inv:
  "fill_loop ev i rs s = Inr s' \<Longrightarrow> part_inv i s \<Longrightarrow> part_inv (i + length rs) s'"
proof (induction rs arbitrary: i s)
  case Nil
  then show ?case by simp
next
  case (Cons r rs)
  from Cons.prems(1) obtain s1 where s1: "fill_step ev i r s = Inr s1"
    and rest: "fill_loop ev (Suc i) rs s1 = Inr s'"
    by (auto split: sum.splits)
  from Cons.IH[OF rest fill_step_part_inv[OF s1 Cons.prems(2)]] show ?case by simp
qed

lemma fill_step_valid:
  assumes "valid_record ev r"
  shows "\<exists>s'. fill_step ev i r s = Inr s'"
proof -
  from assms have "formattable ev r ''createdAt''" by (simp add: valid_record_def)
  then obtain n where n: "getitem r ''createdAt'' = Inr (JNum n)"
    by (rule formattableD)
  from add_record_valid[OF assms] obtain d30 d60 d90 where
    "add_record ev (all30_dict s) r i = Inr d30" "add_record ev (all60_dict s) r i = Inr d60"
    "add_record ev (all90_dict s) r i = Inr d90" by metis
  with n show ?thesis by (simp add: fill_step_def)
qed

lemma fill_loop_valid:
  "\<forall>r\<in>set rs. valid_record ev r \<Longrightarrow> \<exists>s'. fill_loop ev i rs s = Inr s'"
proof (induction rs arbitrary: i s)
  case Nil
  then show ?case by simp
next
  case (Cons r rs)
  then obtain s1 where "fill_step ev i r s = Inr s1"
    using fill_step_valid[of ev r i s] by auto
  with Cons show ?case by simp
qed

lemma part_inv_sizes:
  assumes "part_inv n s"
  shows "length (all30_dict s) + length (all60_dict s) + length (all90_dict s) = n"
proof -
  let ?ks = "keys (all30_dict s) @ keys (all60_dict s) @ keys (all90_dict s)"
  from assms have "distinct ?ks" and "set ?ks = {..<n}"
    by (auto simp: part_inv_def all_keys_def)
  then have "length ?ks = n" using distinct_card[of ?ks] by simp
  then show ?thesis by (simp add: keys_def)
qed

lemma add_record_after:
  assumes "(a, b) \<in> set (after_add (add_record ev d r k))"
  shows "(a, b) \<in> set d \<or> (a = k \<and> made_from (\<not> isl (add_record ev d r k)) r b)"
proof (cases "add_record ev d r k")
  case (Inl x)
  obtain e d' where x: "x = (e, d')" by (cases x)
  have c: "''createdAt'' \<in> fst ` set r \<or> d' = d"
    using Inl x getitem_Inl[of "''createdAt''" r]
    by (auto simp: add_record_def Let_def split: sum.splits if_splits)
  from add_record_Inl_entry[of ev d r k e d'] Inl x assms c show ?thesis
    by (auto simp: after_add_def made_from_def dest: set_update_cases)
next
  case (Inr d')
  have c: "''createdAt'' \<in> fst ` set r"
    using Inr getitem_Inl[of "''createdAt''" r]
    by (auto simp: add_record_def Let_def split: sum.splits if_splits)
  from add_record_Inr_entry[OF Inr] obtain x where x: "d' = AList.update k x d" "normalized x"
    "(map_of x ''Closed'' = None) = (''endDate'' \<notin> fst ` set r)" by (elim exE conjE)
  from assms Inr have "(a, b) \<in> set d'" by (simp add: after_add_def)
  with x(1) have "(a = k \<and> b = x) \<or> (a, b) \<in> set d" using set_update_cases by fast
  with x c Inr show ?thesis by (auto simp: made_from_def)
qed

lemma fill_step_after:
  assumes "(a, b) \<in> entries (state_after (fill_step ev i r s))"
  shows "(a, b) \<in> entries s \<or> (a = i \<and> made_from (\<not> isl (fill_step ev i r s)) r b)"
proof (cases "getitem r ''createdAt''")
  case (Inl e)
  with assms show ?thesis by (simp add: fill_step_def)
next
  case (Inr v)
  note v = this
  show ?thesis
  proof (cases "truediv v 1000")
    case (Inl e)
    with v assms show ?thesis by (simp add: fill_step_def)
  next
    case (Inr t)
    have *: "\<And>d. (a, b) \<in> set (after_add (add_record ev d r i)) \<Longrightarrow>
       (a, b) \<in> set d \<or> (a = i \<and> made_from (\<not> isl (add_record ev d r i)) r b)"
      by (rule add_record_after)
    consider "t > cutoff30 ev" | "\<not> t > cutoff30 ev" "t > cutoff60 ev"
      | "\<not> t > cutoff30 ev" "\<not> t > cutoff60 ev" by blast
    then show ?thesis
    proof cases
      case 1
      with v Inr have fs: "fill_step ev i r s =
        (case add_record ev (all30_dict s) r i of
           Inl x \<Rightarrow> Inl (fst x, s\<lparr>all30_dict := snd x\<rparr>)
         | Inr d \<Rightarrow> Inr (s\<lparr>all30_dict := d\<rparr>))" by (simp add: fill_step_def)
      show ?thesis using assms *[of "all30_dict s"] unfolding fs entries_def after_add_def
        by (cases "add_record ev (all30_dict s) r i") auto
    next
      case 2
      with v Inr have fs: "fill_step ev i r s =
        (case add_record ev (all60_dict s) r i of
           Inl x \<Rightarrow> Inl (fst x, s\<lparr>all60_dict := snd x\<rparr>)
         | Inr d \<Rightarrow> Inr (s\<lparr>all60_dict := d\<rparr>))" by (simp add: fill_step_def)
      show ?thesis using assms *[of "all60_dict s"] unfolding fs entries_def after_add_def
        by (cases "add_record ev (all60_dict s) r i") auto
    next
      case 3
      with v Inr have fs: "fill_step ev i r s =
        (case add_record ev (all90_dict s) r i of
           Inl x \<Rightarrow> Inl (fst x, s\<lparr>all90_dict := snd x\<rparr>)
         | Inr d \<Rightarrow> Inr (s\<lparr>all90_dict := d\<rparr>))" by (simp add: fill_step_def)
      show ?thesis using assms *[of "all90_dict s"] unfolding fs entries_def after_add_def
        by (cases "add_record ev (all90_dict s) r i") auto
    qed
  qed
qed

lemma made_from_weaken: "made_from p r c \<Longrightarrow> (q \<longrightarrow> p) \<Longrightarrow> made_from q r c"
  by (auto simp: made_from_def)

lemma fill_loop_after:
  "(a, b) \<in> entries (state_after (fill_loop ev i rs s)) \<Longrightarrow>
   (a, b) \<in> entries s \<or>
   (i \<le> a \<and> a < i + length rs \<and> made_from (\<not> isl (fill_loop ev i rs s)) (rs ! (a - i)) b)"
proof (induction rs arbitrary: i s)
  case Nil
  then show ?case by simp
next
  case (Cons r rs)
  show ?case
  proof (cases "fill_step ev i r s")
    case (Inl x)
    with Cons.prems have "(a, b) \<in> entries (state_after (fill_step ev i r s))" by simp
    from fill_step_after[OF this] Inl show ?thesis
      by (auto elim: made_from_weaken)
  next
    case (Inr s1)
    with Cons.prems have "(a, b) \<in> entries (state_after (fill_loop ev (Suc i) rs s1))" by simp
    from Cons.IH[OF this] consider "(a, b) \<in> entries s1"
      | "Suc i \<le> a" "a < Suc i + length rs"
        "made_from (\<not> isl (fill_loop ev (Suc i) rs s1)) (rs ! (a - Suc i)) b"
      by blast
    then show ?thesis
    proof cases
      case 1
      with Inr have "(a, b) \<in> entries (state_after (fill_step ev i r s))" by simp
      from fill_step_after[OF this] Inr show ?thesis
        by (auto elim: made_from_weaken)
    next
      case 2
      then have "(r # rs) ! (a - i) = rs ! (a - Suc i)"
        by (metis Suc_diff_le diff_Suc_Suc nth_Cons_Suc)
      with 2 Inr show ?thesis by auto
    qed
  qed
qed

lemma fill_loop_raises:
  "j < length rs \<Longrightarrow> ''createdAt'' \<notin> fst ` set (rs ! j) \<Longrightarrow>
   \<exists>e s'. fill_loop ev i rs s = Inl (e, s') \<and>
          ((\<forall>m<j. valid_record ev (rs ! m)) \<longrightarrow> e = KeyError ''createdAt'')"
proof (induction rs arbitrary: i j s)
  case Nil
  then show ?case by simp
next
  case (Cons r rs)
  show ?case
  proof (cases j)
    case 0
    with Cons.prems have "fill_step ev i r s = Inl (KeyError ''createdAt'', s)"
      by (simp add: fill_step_def getitem_Inl)
    then show ?thesis by simp
  next
    case (Suc j')
    show ?thesis
    proof (cases "fill_step ev i r s")
      case (Inl x)
      have "\<not> valid_record ev r" using fill_step_valid[of ev r i s] Inl by auto
      with Inl Suc show ?thesis by (cases x) auto
    next
      case (Inr s1)
      from Cons.prems Suc have "j' < length rs" "''createdAt'' \<notin> fst ` set (rs ! j')" by auto
      from Cons.IH[OF this, of "Suc i" s1] obtain e s' where
        l: "fill_loop ev (Suc i) rs s1 = Inl (e, s')"
        and v: "(\<forall>m<j'. valid_record ev (rs ! m)) \<longrightarrow> e = KeyError ''createdAt''"
        by blast
      have "(\<forall>m<j. valid_record ev ((r # rs) ! m)) \<Longrightarrow> (\<forall>m<j'. valid_record ev (rs ! m))"
      proof (intro allI impI)
        fix m assume a: "\<forall>m<j. valid_record ev ((r # rs) ! m)" and "m < j'"
        with Suc have "Suc m < j" by simp
        with a have "valid_record ev ((r # rs) ! Suc m)" by blast
        then show "valid_record ev (rs ! m)" by simp
      qed
      with l v Inr show ?thesis by auto
    qed
  qed
qed

lemma getcol_transpose:
  "c \<in> set idx \<Longrightarrow> getcol (DataFrame_transpose d idx) c = map (\<lambda>(k, r). map_of r c) d"
  by (simp add: getcol_def DataFrame_transpose_def map_of_zip_map case_prod_unfold)

lemma value_counts_filter:
  assumes "l \<noteq> JNull"
  shows "(case value_counts col l of None \<Rightarrow> 0 | Some n \<Rightarrow> n) = length (filter (\<lambda>v. v = Some l) col)"
proof -
  define vs where "vs = map the (filter (\<lambda>v. \<not> isna v) col)"
  have "count_list vs l = length (filter (\<lambda>v. v = Some l) col)"
    unfolding vs_def using assms by (induction col) (auto simp: isna_def)
  moreover have "(case value_counts col l of None \<Rightarrow> 0 | Some n \<Rightarrow> n) = count_list vs l"
    unfolding value_counts_def Let_def vs_def[symmetric]
    by (simp add: count_list_0_iff)
  ultimately show ?thesis by simp
qed

lemma value_counts_field:
  assumes "l \<noteq> JNull" "c \<in> set idx"
  shows "(case value_counts (getcol (DataFrame_transpose d idx) c) l of None \<Rightarrow> 0 | Some n \<Rightarrow> n)
         = field_count d c l"
  unfolding value_counts_filter[OF assms(1)] getcol_transpose[OF assms(2)] field_count_def
  by (induction d) auto

lemma counts_columns:
  "columns (data_frame_counts (make_dataframes s)) =
     [''Created'', ''Closed'', ''Owner'', ''Resolution'', ''Severity'']"
  by (simp add: make_dataframes_def Let_def fillna_def DataFrame_index_def)

lemma counts_index:
  "map fst (rows (data_frame_counts (make_dataframes s))) = counts_frame_INDEX"
  by (simp add: make_dataframes_def Let_def fillna_def DataFrame_index_def comp_def)

lemma INDEX_not_null: "l \<in> set counts_frame_INDEX \<Longrightarrow> l \<noteq> JNull"
  by (auto simp: counts_frame_INDEX_def)

lemma counts_rows:
  "rows (data_frame_counts (make_dataframes s)) =
    map (\<lambda>l. (l, [if l = JStr ''totals'' then df_count (DataFrame_transpose (all30_dict s) data_frame_INDEX) ''Created'' else 0,
                   if l = JStr ''totals'' then df_count (DataFrame_transpose (all30_dict s) data_frame_INDEX) ''Closed'' else 0,
                   field_count (all30_dict s) ''Owner'' l,
                   field_count (all30_dict s) ''Resolution'' l,
                   field_count (all30_dict s) ''Severity'' l]))
      counts_frame_INDEX"
proof -
  have idx: "''Owner'' \<in> set data_frame_INDEX" "''Resolution'' \<in> set data_frame_INDEX"
    "''Severity'' \<in> set data_frame_INDEX"
    by (simp_all add: data_frame_INDEX_def)
  show ?thesis
    unfolding make_dataframes_def Let_def fillna_def DataFrame_index_def
    by (simp add: value_counts_field[OF INDEX_not_null] idx)
qed

lemma df_count_Created:
  assumes "\<forall>(k, c)\<in>set d. normalized c"
  shows "df_count (DataFrame_transpose d data_frame_INDEX) ''Created'' = length d"
proof -
  have "''Created'' \<in> set data_frame_INDEX" by (simp add: data_frame_INDEX_def)
  from getcol_transpose[OF this] have
    "df_count (DataFrame_transpose d data_frame_INDEX) ''Created''
      = length (filter (\<lambda>(k, c). \<not> isna (map_of c ''Created'')) d)"
    by (simp add: df_count_def filter_map comp_def case_prod_unfold)
  also have "\<dots> = length d"
    using assms by (induction d) (auto simp: normalized_def isna_def)
  finally show ?thesis .
qed

lemma df_count_Closed:
  assumes "\<forall>(k, c)\<in>set d. normalized c"
  shows "df_count (DataFrame_transpose d data_frame_INDEX) ''Closed''
         = length (filter (\<lambda>(k, c). ''Closed'' \<in> fst ` set c) d)"
proof -
  have "''Closed'' \<in> set data_frame_INDEX" by (simp add: data_frame_INDEX_def)
  from getcol_transpose[OF this] have
    "df_count (DataFrame_transpose d data_frame_INDEX) ''Closed''
      = length (filter (\<lambda>(k, c). \<not> isna (map_of c ''Closed'')) d)"
    by (simp add: df_count_def filter_map comp_def case_prod_unfold)
  also have "\<dots> = length (filter (\<lambda>(k, c). ''Closed'' \<in> fst ` set c) d)"
    using assms
  proof (induction d)
    case Nil
    then show ?case by simp
  next
    case (Cons p d)
    obtain k c where p: "p = (k, c)" by (cases p)
    with Cons.prems have n: "normalized c" by simp
    have "(map_of c ''Closed'' = None) = (''Closed'' \<notin> fst ` set c)"
      by (rule map_of_eq_None_iff)
    with n have "\<not> isna (map_of c ''Closed'') \<longleftrightarrow> ''Closed'' \<in> fst ` set c"
      unfolding normalized_def isna_def by auto
    with Cons p show ?case by simp
  qed
  finally show ?thesis .
qed

section \<open>The pipeline on the concrete environment\<close>

lemma utc_strftime_examples:
  "utc_strftime 1614124800 = Inr ''02/24/2021 00:00:00''"
  "utc_strftime 1610668800 = Inr ''01/15/2021 00:00:00''"
  "utc_strftime 1606348800 = Inr ''11/26/2020 00:00:00''"
  "utc_strftime 1611000000 = Inr ''01/18/2021 20:00:00''"
  "utc_strftime 1614200000 = Inr ''02/24/2021 20:53:20''"
  "utc_strftime 1611964799 = Inr ''01/29/2021 23:59:59''"
  "utc_strftime 1611964801 = Inr ''01/30/2021 00:00:01''"
  by code_simp+

lemmas pipeline_defs =
  fill_day_dicts_def fill_step_def add_record_def getitem_def env_utc_def init_def
  case_recent_def case_closed_def case_old_def case_unpaired_def case_undated_def
  case_before_def case_after_def case_resolved_def utc_strftime_examples

lemma valid_examples:
  "valid_record env_utc case_recent" "valid_record env_utc case_closed"
  "valid_record env_utc case_old" "valid_record env_utc case_before"
  "valid_record env_utc case_after" "valid_record env_utc case_resolved"
  by (simp_all add: valid_record_def formattable_def pipeline_defs)

lemma fill_scenario:
  "fill_day_dicts env_utc [case_recent, case_closed, case_old] init =
    Inr \<lparr>all30_dict = [(0, [(''Name'', JStr ''Phishing mail''), (''Owner'', JStr ''A''),
                             (''Severity'', JNum 2), (''Created'', JStr ''02/24/2021 00:00:00'')])],
         all60_dict = [(1, [(''Name'', JStr ''Port scan''), (''Owner'', JStr ''B''),
                             (''Severity'', JNum 1), (''Created'', JStr ''01/15/2021 00:00:00''),
                             (''Closed'', JStr ''01/18/2021 20:00:00''),
                             (''Resolution'', JStr ''TruePositive'')])],
         all90_dict = [(2, [(''Name'', JStr ''Lost badge''), (''Owner'', JStr ''A''),
                             (''Severity'', JNum 3), (''Created'', JStr ''11/26/2020 00:00:00'')])]\<rparr>"
  by (simp add: pipeline_defs)

section \<open>The claims\<close>

text \<open>
  C1 (as amended). For every input sequence of raw case records each of which
  \<^verbatim>\<open>_add_record\<close> accepts (title, owner and severity present, a numeric \<^verbatim>\<open>createdAt\<close>
  that the platform formats and, with \<^verbatim>\<open>endDate\<close>, a formattable one and
  \<^verbatim>\<open>resolutionStatus\<close>), \<^verbatim>\<open>_fill_day_dicts\<close> returns, and each record is in exactly
  one of the three window dictionaries: the three sizes add up to the size of the input,
  the key sets are pairwise disjoint, no key occurs twice, and the keys are the indices
  of the input.
\<close>

theorem fill_day_dicts_partition:
  assumes "\<forall>r\<in>set dataset. valid_record ev r"
  shows "\<exists>s. fill_day_dicts ev dataset init = Inr s \<and>
     length (all30_dict s) + length (all60_dict s) + length (all90_dict s) = length dataset \<and>
     set (keys (all30_dict s)) \<inter> set (keys (all60_dict s)) = {} \<and>
     set (keys (all30_dict s)) \<inter> set (keys (all90_dict s)) = {} \<and>
     set (keys (all60_dict s)) \<inter> set (keys (all90_dict s)) = {} \<and>
     distinct (keys (all30_dict s)) \<and> distinct (keys (all60_dict s)) \<and>
     distinct (keys (all90_dict s)) \<and>
     set (keys (all30_dict s)) \<union> set (keys (all60_dict s)) \<union> set (keys (all90_dict s))
       = {..<length dataset}"
proof -
  from fill_loop_valid[OF assms] obtain s where s: "fill_loop ev 0 dataset init = Inr s"
    by blast
  from fill_loop_part_inv[OF s part_inv_init] have inv: "part_inv (length dataset) s"
    by simp
  from part_inv_sizes[OF inv] have
    "length (all30_dict s) + length (all60_dict s) + length (all90_dict s) = length dataset" .
  moreover from inv have
    "distinct (keys (all30_dict s) @ keys (all60_dict s) @ keys (all90_dict s))"
    "set (keys (all30_dict s)) \<union> set (keys (all60_dict s)) \<union> set (keys (all90_dict s))
       = {..<length dataset}"
    by (simp_all add: part_inv_def all_keys_def)
  ultimately show ?thesis using s
    by (intro exI[of _ s]) (auto simp: fill_day_dicts_def)
qed

text \<open>The three cases of the concrete run, one for each window.\<close>

theorem fill_day_dicts_partition_witness:
  "valid_record env_utc case_recent \<and> valid_record env_utc case_closed \<and>
   valid_record env_utc case_old \<and>
   (\<exists>s. fill_day_dicts env_utc [case_recent, case_closed, case_old] init = Inr s \<and>
     length (all30_dict s) + length (all60_dict s) + length (all90_dict s) = 3 \<and>
     set (keys (all30_dict s)) \<inter> set (keys (all60_dict s)) = {} \<and>
     set (keys (all30_dict s)) \<union> set (keys (all60_dict s)) \<union> set (keys (all90_dict s))
       = {..<3})"
proof -
  have h: "\<forall>r\<in>set [case_recent, case_closed, case_old]. valid_record env_utc r"
    by (simp add: valid_examples)
  from fill_day_dicts_partition[OF h] show ?thesis
    by (auto simp: valid_examples)
qed

text \<open>
  A numeric \<^verbatim>\<open>createdAt\<close> is not enough. Of two records that both have one, the first
  has \<^verbatim>\<open>endDate\<close> and no \<^verbatim>\<open>resolutionStatus\<close>: the call raises, one entry is stored
  and the second record reaches no dictionary.
\<close>

theorem numeric_createdAt_counterexample:
  "map_of case_unpaired ''createdAt'' = Some (JNum 1614124800000) \<and>
   map_of case_recent ''createdAt'' = Some (JNum 1614124800000) \<and>
   fill_day_dicts env_utc [case_unpaired, case_recent] init =
     Inl (KeyError ''resolutionStatus'',
          \<lparr>all30_dict = [(0, [(''Name'', JStr ''Malware''), (''Owner'', JStr ''B''),
                                (''Severity'', JNum 2), (''Created'', JStr ''02/24/2021 00:00:00'')])],
           all60_dict = [], all90_dict = []\<rparr>)"
  by (simp add: pipeline_defs)

lemma add_record_key_in:
  assumes "add_record ev d r k = Inr d'"
  shows "k \<in> set (keys d')"
  using add_record_keys_Inr[OF assms] by (simp split: if_splits)

text \<open>
  C4 (as amended). The comparison is \<^verbatim>\<open>createdAt / 1000 > cutoff\<close>: a record created
  one second after the cutoff of 30 days is stored in the dictionary of the last 30 days;
  a record created at the cutoff, or one second before it, is stored in the dictionary
  of the last 60 days, provided it is after the cutoff of 60 days. The other two
  dictionaries are unchanged.
\<close>

theorem cutoff_boundary:
  assumes "valid_record ev r" and "map_of r ''createdAt'' = Some (JNum c)"
  shows "(of_int c / 1000 = cutoff30 ev + 1 \<longrightarrow>
            (\<exists>d. fill_step ev i r s = Inr (s\<lparr>all30_dict := d\<rparr>) \<and> i \<in> set (keys d))) \<and>
         (of_int c / 1000 = cutoff30 ev \<and> cutoff60 ev < cutoff30 ev \<longrightarrow>
            (\<exists>d. fill_step ev i r s = Inr (s\<lparr>all60_dict := d\<rparr>) \<and> i \<in> set (keys d))) \<and>
         (of_int c / 1000 = cutoff30 ev - 1 \<and> cutoff60 ev < cutoff30 ev - 1 \<longrightarrow>
            (\<exists>d. fill_step ev i r s = Inr (s\<lparr>all60_dict := d\<rparr>) \<and> i \<in> set (keys d)))"
proof -
  from add_record_valid[OF assms(1)] obtain d30 d60 where
    d: "add_record ev (all30_dict s) r i = Inr d30" "add_record ev (all60_dict s) r i = Inr d60"
    by metis
  have g: "getitem r ''createdAt'' = Inr (JNum c)"
    using assms(2) by (simp add: getitem_def)
  have "of_int c / 1000 = cutoff30 ev + 1 \<Longrightarrow> fill_step ev i r s = Inr (s\<lparr>all30_dict := d30\<rparr>)"
    using g d by (simp add: fill_step_def)
  moreover have "of_int c / 1000 = cutoff30 ev \<Longrightarrow> cutoff60 ev < cutoff30 ev \<Longrightarrow>
      fill_step ev i r s = Inr (s\<lparr>all60_dict := d60\<rparr>)"
    using g d by (simp add: fill_step_def)
  moreover have "of_int c / 1000 = cutoff30 ev - 1 \<Longrightarrow> cutoff60 ev < cutoff30 ev - 1 \<Longrightarrow>
      fill_step ev i r s = Inr (s\<lparr>all60_dict := d60\<rparr>)"
    using g d by (simp add: fill_step_def)
  ultimately show ?thesis
    using add_record_key_in[OF d(1)] add_record_key_in[OF d(2)] by blast
qed

text \<open>The case created at 00:00:01 on 30 January 2021, the cutoff being 00:00:00.\<close>

theorem cutoff_boundary_witness:
  "valid_record env_utc case_after \<and>
   map_of case_after ''createdAt'' = Some (JNum 1611964801000) \<and>
   of_int 1611964801000 / 1000 = cutoff30 env_utc + 1 \<and>
   (\<exists>d. fill_step env_utc 0 case_after init = Inr (init\<lparr>all30_dict := d\<rparr>) \<and> 0 \<in> set (keys d))"
proof -
  have v: "valid_record env_utc case_after" by (rule valid_examples)
  have c: "map_of case_after ''createdAt'' = Some (JNum 1611964801000)"
    by (simp add: case_after_def)
  have t: "of_int 1611964801000 / 1000 = cutoff30 env_utc + 1" by (simp add: env_utc_def)
  from cutoff_boundary[OF v c, of 0 init] t v c show ?thesis by blast
qed

text \<open>
  The claim has the two sides exchanged: the case created one second before the cutoff
  is in the dictionary of 60 days, the one created one second after it in that of 30 days.
\<close>

theorem one_second_earlier_counterexample:
  "cutoff30 env_utc = 1611964800 \<and>
   map_of case_before ''createdAt'' = Some (JNum 1611964799000) \<and>
   map_of case_after ''createdAt'' = Some (JNum 1611964801000) \<and>
   fill_day_dicts env_utc [case_before] init =
     Inr \<lparr>all30_dict = [],
          all60_dict = [(0, [(''Name'', JStr ''Early''), (''Owner'', JStr ''A''),
                              (''Severity'', JNum 1), (''Created'', JStr ''01/29/2021 23:59:59'')])],
          all90_dict = []\<rparr> \<and>
   fill_day_dicts env_utc [case_after] init =
     Inr \<lparr>all30_dict = [(0, [(''Name'', JStr ''Late''), (''Owner'', JStr ''A''),
                              (''Severity'', JNum 1), (''Created'', JStr ''01/30/2021 00:00:01'')])],
          all60_dict = [], all90_dict = []\<rparr>"
  by (simp add: pipeline_defs)

text \<open>
  C6. Every entry that \<^verbatim>\<open>_fill_day_dicts\<close> leaves in one of the three dictionaries,
  whether the call returned or raised, has \<^verbatim>\<open>Closed\<close> exactly when it has
  \<^verbatim>\<open>Resolution\<close>; its key is an index of the input, and when the call returned, both are
  there exactly when the record of that index has \<^verbatim>\<open>endDate\<close>.
\<close>

theorem closed_iff_resolution:
  assumes "(k, c) \<in> entries (state_after (fill_day_dicts ev dataset init))"
  shows "(''Closed'' \<in> fst ` set c \<longleftrightarrow> ''Resolution'' \<in> fst ` set c) \<and>
         k < length dataset \<and>
         (\<not> isl (fill_day_dicts ev dataset init) \<longrightarrow>
            (''Closed'' \<in> fst ` set c \<longleftrightarrow> ''endDate'' \<in> fst ` set (dataset ! k)))"
proof -
  have "entries init = {}" by (simp add: entries_def init_def)
  with fill_loop_after[of k c ev 0 dataset init] assms
  have k: "k < length dataset"
    and m: "made_from (\<not> isl (fill_loop ev 0 dataset init)) (dataset ! k) c"
    by (auto simp: fill_day_dicts_def)
  have n: "\<And>f. (map_of c f = None) = (f \<notin> fst ` set c)"
    by (rule map_of_eq_None_iff)
  from m have "''Closed'' \<in> fst ` set c \<longleftrightarrow> ''Resolution'' \<in> fst ` set c"
    unfolding made_from_def normalized_def n by blast
  moreover from m have "\<not> isl (fill_day_dicts ev dataset init) \<longrightarrow>
      (''Closed'' \<in> fst ` set c \<longleftrightarrow> ''endDate'' \<in> fst ` set (dataset ! k))"
    unfolding made_from_def n fill_day_dicts_def by blast
  ultimately show ?thesis using k by blast
qed

text \<open>The closed case of the concrete run.\<close>

theorem closed_iff_resolution_witness:
  "(1, [(''Name'', JStr ''Port scan''), (''Owner'', JStr ''B''),
        (''Severity'', JNum 1), (''Created'', JStr ''01/15/2021 00:00:00''),
        (''Closed'', JStr ''01/18/2021 20:00:00''), (''Resolution'', JStr ''TruePositive'')])
     \<in> entries (state_after (fill_day_dicts env_utc [case_recent, case_closed, case_old] init)) \<and>
   ''endDate'' \<in> fst ` set ([case_recent, case_closed, case_old] ! 1)"
proof -
  let ?c = "[(''Name'', JStr ''Port scan''), (''Owner'', JStr ''B''),
        (''Severity'', JNum 1), (''Created'', JStr ''01/15/2021 00:00:00''),
        (''Closed'', JStr ''01/18/2021 20:00:00''), (''Resolution'', JStr ''TruePositive'')]"
  have h: "(1, ?c) \<in> entries (state_after (fill_day_dicts env_utc [case_recent, case_closed, case_old] init))"
    by (simp add: fill_scenario entries_def)
  have r: "\<not> isl (fill_day_dicts env_utc [case_recent, case_closed, case_old] init)"
    by (simp add: fill_scenario)
  from closed_iff_resolution[OF h] r h show ?thesis by simp
qed

lemma add_record_Inl_partial:
  assumes "add_record ev d r k = Inl (e, d')"
  shows "d' = d \<or> (\<exists>x. d' = AList.update k x d \<and> ''Closed'' \<notin> fst ` set x \<and>
           ''Resolution'' \<notin> fst ` set x)"
  using assms
  by (auto simp: add_record_def Let_def split: sum.splits if_splits)

lemma add_record_unpaired_raises:
  assumes "''endDate'' \<in> fst ` set r" "''resolutionStatus'' \<notin> fst ` set r"
  shows "add_record ev d r k \<noteq> Inr d'"
  using assms getitem_Inl[OF assms(2)]
  by (auto simp: add_record_def Let_def split: sum.splits)

text \<open>
  C7 (as amended). For every raw record that has \<^verbatim>\<open>endDate\<close> and no
  \<^verbatim>\<open>resolutionStatus\<close>, \<^verbatim>\<open>_add_record\<close> raises; no value is made up for the
  resolution: an entry it stored under the key has no \<^verbatim>\<open>Resolution\<close>. The exception is
  one of Python's own. When the other fields are in order it is the
  \<^verbatim>\<open>KeyError\<close> of the lookup \<^verbatim>\<open>record["resolutionStatus"]\<close>, raised after the entry
  without \<^verbatim>\<open>Closed\<close> and \<^verbatim>\<open>Resolution\<close> has been stored under the key.
\<close>

theorem endDate_without_resolutionStatus:
  assumes "''endDate'' \<in> fst ` set r" and "''resolutionStatus'' \<notin> fst ` set r"
  shows "\<exists>e d'. add_record ev d r k = Inl (e, d') \<and>
     (''title'' \<in> fst ` set r \<and> ''owner'' \<in> fst ` set r \<and> ''severity'' \<in> fst ` set r \<and>
      formattable ev r ''createdAt'' \<and> formattable ev r ''endDate''
        \<longrightarrow> e = KeyError ''resolutionStatus'' \<and> k \<in> set (keys d')) \<and>
     (\<forall>c. (k, c) \<in> set d' \<longrightarrow> (k, c) \<in> set d \<or> ''Resolution'' \<notin> fst ` set c)"
proof -
  obtain e d' where res: "add_record ev d r k = Inl (e, d')"
    using add_record_unpaired_raises[OF assms] by (cases "add_record ev d r k") auto
  have "e = KeyError ''resolutionStatus'' \<and> k \<in> set (keys d')"
    if w: "''title'' \<in> fst ` set r" "''owner'' \<in> fst ` set r" "''severity'' \<in> fst ` set r"
      "formattable ev r ''createdAt''" "formattable ev r ''endDate''"
  proof -
    from w obtain t o' sv where f: "getitem r ''title'' = Inr t" "getitem r ''owner'' = Inr o'"
      "getitem r ''severity'' = Inr sv" by (meson getitem_Inr)
    from w(4) obtain n cs where c: "getitem r ''createdAt'' = Inr (JNum n)"
      "strftime_gmtime ev (of_int n / 1000) = Inr cs" by (rule formattableD)
    from w(5) obtain m es where e: "getitem r ''endDate'' = Inr (JNum m)"
      "strftime_gmtime ev (of_int m / 1000) = Inr es" by (rule formattableD)
    from res f c e assms getitem_Inl[OF assms(2)] show ?thesis
      by (auto simp: add_record_def Let_def keys_def dom_update)
  qed
  moreover have "(k, c) \<in> set d \<or> ''Resolution'' \<notin> fst ` set c" if "(k, c) \<in> set d'" for c
    using add_record_Inl_partial[OF res] that by (auto dest: set_update_cases)
  ultimately show ?thesis using res by blast
qed

text \<open>The closed case without \<^verbatim>\<open>resolutionStatus\<close>, added to the empty dictionary.\<close>

theorem endDate_without_resolutionStatus_witness:
  "''endDate'' \<in> fst ` set case_unpaired \<and> ''resolutionStatus'' \<notin> fst ` set case_unpaired \<and>
   (\<exists>e d'. add_record env_utc [] case_unpaired 0 = Inl (e, d') \<and>
      e = KeyError ''resolutionStatus'' \<and> 0 \<in> set (keys d'))"
proof -
  have a: "''endDate'' \<in> fst ` set case_unpaired" by (simp add: case_unpaired_def)
  have b: "''resolutionStatus'' \<notin> fst ` set case_unpaired" by (simp add: case_unpaired_def)
  have w: "''title'' \<in> fst ` set case_unpaired \<and> ''owner'' \<in> fst ` set case_unpaired \<and>
      ''severity'' \<in> fst ` set case_unpaired \<and>
      formattable env_utc case_unpaired ''createdAt'' \<and> formattable env_utc case_unpaired ''endDate''"
    by (simp add: formattable_def pipeline_defs)
  from endDate_without_resolutionStatus[OF a b, of env_utc "[]" 0] w a b show ?thesis
    by blast
qed

text \<open>
  The exception is the \<^verbatim>\<open>KeyError\<close> of the dictionary lookup; the program has no error
  of its own for a malformed record. The four-field entry stays in the dictionary.
\<close>

theorem no_MalformedRecordError_counterexample:
  "add_record env_utc [] case_unpaired 0 =
     Inl (KeyError ''resolutionStatus'',
          [(0, [(''Name'', JStr ''Malware''), (''Owner'', JStr ''B''),
                (''Severity'', JNum 2), (''Created'', JStr ''02/24/2021 00:00:00'')])])"
  by (simp add: pipeline_defs)

text \<open>
  C8 (as amended). When a record of the input has no \<^verbatim>\<open>createdAt\<close>,
  \<^verbatim>\<open>_fill_day_dicts\<close> raises and the index of that record is a key of none of the three
  dictionaries. The exception is one of Python's own; when all the records before it
  are accepted, it is the \<^verbatim>\<open>KeyError\<close> of the lookup \<^verbatim>\<open>record["createdAt"]\<close>.
\<close>

theorem missing_createdAt:
  assumes "j < length dataset" and "''createdAt'' \<notin> fst ` set (dataset ! j)"
  shows "\<exists>e s. fill_day_dicts ev dataset init = Inl (e, s) \<and>
     j \<notin> set (keys (all30_dict s)) \<and> j \<notin> set (keys (all60_dict s)) \<and>
     j \<notin> set (keys (all90_dict s)) \<and>
     ((\<forall>m<j. valid_record ev (dataset ! m)) \<longrightarrow> e = KeyError ''createdAt'')"
proof -
  from fill_loop_raises[OF assms, of ev 0 init] obtain e s where
    r: "fill_loop ev 0 dataset init = Inl (e, s)"
    and v: "(\<forall>m<j. valid_record ev (dataset ! m)) \<longrightarrow> e = KeyError ''createdAt''"
    by blast
  have "entries init = {}" by (simp add: entries_def init_def)
  have no: "(j, c) \<notin> entries s" for c
  proof
    assume "(j, c) \<in> entries s"
    with r have "(j, c) \<in> entries (state_after (fill_loop ev 0 dataset init))" by simp
    from fill_loop_after[OF this] \<open>entries init = {}\<close> assms(2) show False
      by (simp add: made_from_def)
  qed
  have "j \<notin> all_keys s"
  proof
    assume "j \<in> all_keys s"
    then have "\<exists>c. (j, c) \<in> entries s"
      by (fastforce simp: all_keys_def entries_def keys_def)
    then obtain c where "(j, c) \<in> entries s" ..
    with no show False by blast
  qed
  with r v show ?thesis
    by (auto simp: fill_day_dicts_def all_keys_def)
qed

text \<open>A recent case followed by the case without \<^verbatim>\<open>createdAt\<close>.\<close>

theorem missing_createdAt_witness:
  "1 < length [case_recent, case_undated] \<and>
   ''createdAt'' \<notin> fst ` set ([case_recent, case_undated] ! 1) \<and>
   valid_record env_utc ([case_recent, case_undated] ! 0) \<and>
   (\<exists>e s. fill_day_dicts env_utc [case_recent, case_undated] init = Inl (e, s) \<and>
      1 \<notin> set (keys (all30_dict s)) \<and> 1 \<notin> set (keys (all60_dict s)) \<and>
      1 \<notin> set (keys (all90_dict s)) \<and> e = KeyError ''createdAt'')"
proof -
  have a: "1 < length [case_recent, case_undated]" by simp
  have b: "''createdAt'' \<notin> fst ` set ([case_recent, case_undated] ! 1)"
    by (simp add: case_undated_def)
  have c: "\<forall>m<1. valid_record env_utc ([case_recent, case_undated] ! m)"
    by (simp add: valid_examples)
  from missing_createdAt[OF a b, of env_utc] a b c show ?thesis
    by (auto simp: valid_examples)
qed

text \<open>
  The exception is the \<^verbatim>\<open>KeyError\<close> of the dictionary lookup, and it ends the loop: the
  record after the one without \<^verbatim>\<open>createdAt\<close> is not stored either.
\<close>

theorem uncaught_KeyError_counterexample:
  "fill_day_dicts env_utc [case_undated, case_recent] init =
     Inl (KeyError ''createdAt'', \<lparr>all30_dict = [], all60_dict = [], all90_dict = []\<rparr>)"
  by (simp add: pipeline_defs)

lemma fill_recent:
  "fill_day_dicts env_utc [case_recent, case_resolved, case_closed] init =
    Inr \<lparr>all30_dict = [(0, [(''Name'', JStr ''Phishing mail''), (''Owner'', JStr ''A''),
                             (''Severity'', JNum 2), (''Created'', JStr ''02/24/2021 00:00:00'')]),
                       (1, [(''Name'', JStr ''Malware''), (''Owner'', JStr ''Team.Member1''),
                             (''Severity'', JNum 2), (''Created'', JStr ''02/24/2021 00:00:00''),
                             (''Closed'', JStr ''02/24/2021 20:53:20''),
                             (''Resolution'', JStr ''FalsePositive'')])],
         all60_dict = [(2, [(''Name'', JStr ''Port scan''), (''Owner'', JStr ''B''),
                             (''Severity'', JNum 1), (''Created'', JStr ''01/15/2021 00:00:00''),
                             (''Closed'', JStr ''01/18/2021 20:00:00''),
                             (''Resolution'', JStr ''TruePositive'')])],
         all90_dict = []\<rparr>"
  by (simp add: pipeline_defs)

lemma fill_entries_normalized:
  assumes "fill_day_dicts ev dataset init = Inr s"
  shows "\<forall>(k, c)\<in>entries s. normalized c"
proof -
  have e: "entries init = {}" by (simp add: entries_def init_def)
  have "normalized c" if "(k, c) \<in> entries s" for k c
  proof -
    from that assms have "(k, c) \<in> entries (state_after (fill_loop ev 0 dataset init))"
      by (simp add: fill_day_dicts_def)
    from fill_loop_after[OF this] e show ?thesis by (simp add: made_from_def)
  qed
  then show ?thesis by blast
qed

lemma loc_counts:
  "loc (data_frame_counts (make_dataframes s)) l c =
    (if l \<in> set counts_frame_INDEX then
       map_of
        [(''Created'', if l = JStr ''totals''
            then df_count (DataFrame_transpose (all30_dict s) data_frame_INDEX) ''Created'' else 0),
         (''Closed'', if l = JStr ''totals''
            then df_count (DataFrame_transpose (all30_dict s) data_frame_INDEX) ''Closed'' else 0),
         (''Owner'', field_count (all30_dict s) ''Owner'' l),
         (''Resolution'', field_count (all30_dict s) ''Resolution'' l),
         (''Severity'', field_count (all30_dict s) ''Severity'' l)] c
     else None)"
  unfolding loc_def counts_rows counts_columns map_of_map_restrict
  by (simp add: restrict_map_def)

text \<open>
  C2. For the dictionary of the last 30 days that \<^verbatim>\<open>_fill_day_dicts\<close> hands to
  \<^verbatim>\<open>make_dataframes\<close>, the cell \<^verbatim>\<open>Created\<close> of the row \<^verbatim>\<open>totals\<close> is the number of
  records in the dictionary, the cell \<^verbatim>\<open>Closed\<close> of that row is the number of records
  that have \<^verbatim>\<open>Closed\<close>, and the second is at most the first.
\<close>

theorem totals_created_closed:
  assumes "fill_day_dicts ev dataset init = Inr s"
  shows "loc (data_frame_counts (make_dataframes s)) (JStr ''totals'') ''Created''
           = Some (length (all30_dict s)) \<and>
         loc (data_frame_counts (make_dataframes s)) (JStr ''totals'') ''Closed''
           = Some (length (filter (\<lambda>(k, c). ''Closed'' \<in> fst ` set c) (all30_dict s))) \<and>
         length (filter (\<lambda>(k, c). ''Closed'' \<in> fst ` set c) (all30_dict s))
           \<le> length (all30_dict s)"
proof -
  from fill_entries_normalized[OF assms] have n: "\<forall>(k, c)\<in>set (all30_dict s). normalized c"
    by (auto simp: entries_def)
  have t: "JStr ''totals'' \<in> set counts_frame_INDEX" by (simp add: counts_frame_INDEX_def)
  show ?thesis
    using t by (simp add: loc_counts df_count_Created[OF n] df_count_Closed[OF n])
qed

text \<open>Two recent cases, one of them closed, and a case of the 60-day window.\<close>

theorem totals_created_closed_witness:
  "fill_day_dicts env_utc [case_recent, case_resolved, case_closed] init = Inr run_recent \<and>
   loc (data_frame_counts (make_dataframes run_recent)) (JStr ''totals'') ''Created'' = Some 2 \<and>
   loc (data_frame_counts (make_dataframes run_recent)) (JStr ''totals'') ''Closed'' = Some 1"
proof -
  have h: "fill_day_dicts env_utc [case_recent, case_resolved, case_closed] init = Inr run_recent"
    by (simp add: run_recent_def fill_recent)
  have s: "all30_dict run_recent =
     [(0, [(''Name'', JStr ''Phishing mail''), (''Owner'', JStr ''A''),
           (''Severity'', JNum 2), (''Created'', JStr ''02/24/2021 00:00:00'')]),
      (1, [(''Name'', JStr ''Malware''), (''Owner'', JStr ''Team.Member1''),
           (''Severity'', JNum 2), (''Created'', JStr ''02/24/2021 00:00:00''),
           (''Closed'', JStr ''02/24/2021 20:53:20''),
           (''Resolution'', JStr ''FalsePositive'')])]"
    by (simp add: run_recent_def fill_recent)
  from totals_created_closed[OF h] h show ?thesis
    by (simp add: s)
qed

text \<open>
  C3 (as amended). The column \<^verbatim>\<open>Owner\<close> of the counts frame has the rows of the fixed
  index and no other: for a label of the index the cell is the number of records of the
  dictionary of the last 30 days whose owner is that label, and an owner that is not a
  label of the index has no row.
\<close>

theorem owner_column:
  "loc (data_frame_counts (make_dataframes s)) l ''Owner'' =
     (if l \<in> set counts_frame_INDEX then Some (field_count (all30_dict s) ''Owner'' l) else None)"
  by (simp add: loc_counts)

text \<open>
  The owner \<^verbatim>\<open>A\<close> of the recent case has no row, and every cell of the column is 0.
\<close>

theorem owner_without_row_counterexample:
  "map_of (snd (all30_dict run_three ! 0)) ''Owner'' = Some (JStr ''A'') \<and>
   loc (data_frame_counts (make_dataframes run_three)) (JStr ''A'') ''Owner'' = None \<and>
   map (\<lambda>l. loc (data_frame_counts (make_dataframes run_three)) l ''Owner'') counts_frame_INDEX
     = replicate 14 (Some 0)"
  by (simp add: run_three_def fill_scenario loc_counts field_count_def counts_frame_INDEX_def
      eval_nat_numeral)

end
